theory Spec2Isabelle
  imports Main "HOL-Library.Char_ord" "HOL-Library.List_Lexorder"
begin

section \<open>Strings\<close>

text \<open>
  A JavaScript string is modelled as a \<^typ>\<open>string\<close>, one \<^typ>\<open>char\<close> per code unit: the
  strings of the model are those whose code units are below 256 (ASCII and the Latin-1
  supplement), which covers host names as certificates and the command line carry them.
  On these strings the operations below are those of the language. The order on
  strings (\<open>HOL-Library.List_Lexorder\<close> over \<open>HOL-Library.Char_ord\<close>) is the code-unit
  order that \<^verbatim>\<open>Array.prototype.sort\<close> uses by default.
\<close>

text \<open>
  \<^verbatim>\<open>toLowerCase\<close> on a code unit below 256: the letters \<^verbatim>\<open>A\<close> to \<^verbatim>\<open>Z\<close> and the
  upper-case letters U+00C0 to U+00DE (all of that range but the multiplication sign
  U+00D7) move up by 32; every other code unit stays.
\<close>

definition toLowerCase_char :: "char \<Rightarrow> char" where
  "toLowerCase_char c =
     (if (CHR ''A'' \<le> c \<and> c \<le> CHR ''Z'') \<or> (CHR 0xC0 \<le> c \<and> c \<le> CHR 0xDE \<and> c \<noteq> CHR 0xD7)
      then char_of (of_char c + (32::nat)) else c)"

definition toLowerCase :: "string \<Rightarrow> string" where
  "toLowerCase s = map toLowerCase_char s"

text \<open>
  The white space and line terminators that \<^verbatim>\<open>trim\<close> removes, among the code units
  below 256: tab, line feed, vertical tab, form feed, carriage return, space and the
  no-break space U+00A0.
\<close>

definition is_whitespace :: "char \<Rightarrow> bool" where
  "is_whitespace c =
     (c = CHR 0x09 \<or> c = CHR 0x0A \<or> c = CHR 0x0B \<or> c = CHR 0x0C \<or> c = CHR 0x0D \<or> c = CHR '' ''
      \<or> c = CHR 0xA0)"

definition trim :: "string \<Rightarrow> string" where
  "trim s = rev (dropWhile is_whitespace (rev (dropWhile is_whitespace s)))"

definition startsWith :: "string \<Rightarrow> string \<Rightarrow> bool" where
  "startsWith s p = (take (length p) s = p)"

definition endsWith :: "string \<Rightarrow> string \<Rightarrow> bool" where
  "endsWith s d = (length d \<le> length s \<and> drop (length s - length d) s = d)"

definition includes_char :: "string \<Rightarrow> char \<Rightarrow> bool" where
  "includes_char s c = (c \<in> set s)"

text \<open>\<^verbatim>\<open>s.replace(pat, rep)\<close> with a string pattern: only the first occurrence is replaced.\<close>

fun replace :: "string \<Rightarrow> string \<Rightarrow> string \<Rightarrow> string" where
  "replace [] pat rep = (if pat = [] then rep else [])"
| "replace (c # cs) pat rep =
     (if startsWith (c # cs) pat then rep @ drop (length pat) (c # cs)
      else c # replace cs pat rep)"

text \<open>\<^verbatim>\<open>s.split(sep)\<close> with a one-character separator; the result is never empty.\<close>

fun split :: "string \<Rightarrow> char \<Rightarrow> string list" where
  "split [] sep = [[]]"
| "split (c # cs) sep =
     (if c = sep then [] # split cs sep
      else (case split cs sep of [] \<Rightarrow> [[c]] | w # ws \<Rightarrow> (c # w) # ws))"

section \<open>The certificate-transparency source\<close>

text \<open>
  The body of the response as \<^verbatim>\<open>response.json()\<close> delivers it. Numbers are never
  inspected by the program.
\<close>

datatype json =
    JNull
  | JBool bool
  | JNumber int
  | JString string
  | JArray "json list"
  | JObject "(string \<times> json) list"

text \<open>
  What \<^verbatim>\<open>await fetch(url, {signal: AbortSignal.timeout(15000)})\<close> followed by
  \<^verbatim>\<open>await response.json()\<close> can do: the fetch rejects (network error, or the
  abort signal of the timeout), or it delivers a response with its \<^verbatim>\<open>ok\<close> flag,
  whose body either parses (\<open>Some\<close>) or makes \<^verbatim>\<open>response.json()\<close> reject (\<open>None\<close>).
\<close>

datatype fetch_outcome =
    Rejected
  | Response bool "json option"

definition crt_url :: "string \<Rightarrow> string" where
  "crt_url domain = ''https://crt.sh/?q=%.'' @ domain @ ''&output=json''"

text \<open>A property of a parsed object: the last member of that name.\<close>

definition member :: "(string \<times> json) list \<Rightarrow> string \<Rightarrow> json option" where
  "member kvs k = map_of (rev kvs) k"

text \<open>
  \<^verbatim>\<open>const name = entry.name_value; ... name.split('\n')\<close>: the two lines go through
  exactly when \<^verbatim>\<open>entry\<close> is an object whose \<^verbatim>\<open>name_value\<close> is a string. Everything
  else (\<^verbatim>\<open>null\<close>, a missing member, a member of another type) throws a
  \<^verbatim>\<open>TypeError\<close>, which is \<open>None\<close> here.
\<close>

fun name_value :: "json \<Rightarrow> string option" where
  "name_value (JObject kvs) =
     (case member kvs ''name_value'' of Some (JString s) \<Rightarrow> Some s | _ \<Rightarrow> None)"
| "name_value _ = None"

text \<open>
  \<^verbatim>\<open>for (const entry of data)\<close>: an array is iterated over its elements, a string over
  its characters; every other value is not iterable and throws (\<open>None\<close>).
\<close>

fun iterate :: "json \<Rightarrow> json list option" where
  "iterate (JArray es) = Some es"
| "iterate (JString s) = Some (map (\<lambda>c. JString [c]) s)"
| "iterate _ = None"

text \<open>A \<^verbatim>\<open>Set\<close> of strings in insertion order; \<^verbatim>\<open>add\<close> ignores an element already there.\<close>

definition Set_add :: "string list \<Rightarrow> string \<Rightarrow> string list" where
  "Set_add s x = (if x \<in> set s then s else s @ [x])"

definition new_Set :: "string list \<Rightarrow> string list" where
  "new_Set xs = foldl Set_add [] xs"

text \<open>\<^verbatim>\<open>n => n.replace('*.', '').trim().toLowerCase()\<close>\<close>

definition normalize_name :: "string \<Rightarrow> string" where
  "normalize_name n = toLowerCase (trim (replace n ''*.'' ''''))"

definition names_of :: "string \<Rightarrow> string list" where
  "names_of name = map normalize_name (split name (CHR 0x0A))"

text \<open>The inner loop over \<^verbatim>\<open>names\<close>.\<close>

definition keeps :: "string \<Rightarrow> string \<Rightarrow> bool" where
  "keeps domain n = (endsWith n domain \<and> \<not> includes_char n (CHR ''*''))"

definition add_names :: "string \<Rightarrow> string list \<Rightarrow> string list \<Rightarrow> string list" where
  "add_names domain names subdomains =
     foldl (\<lambda>acc n. if keeps domain n then Set_add acc n else acc) subdomains names"

text \<open>The outer loop over \<^verbatim>\<open>data\<close>; \<open>None\<close> is the exception that leaves the loop.\<close>

fun collect :: "string \<Rightarrow> json list \<Rightarrow> string list \<Rightarrow> string list option" where
  "collect domain [] subdomains = Some subdomains"
| "collect domain (entry # rest) subdomains =
     (case name_value entry of
        None \<Rightarrow> None
      | Some name \<Rightarrow> collect domain rest (add_names domain (names_of name) subdomains))"

text \<open>
  \<^verbatim>\<open>fetchCrtSh\<close>, with the network as a function from the requested URL to the
  outcome of the request. Every exception ends in the \<^verbatim>\<open>catch\<close> block.
\<close>

definition fetchCrtSh :: "(string \<Rightarrow> fetch_outcome) \<Rightarrow> string \<Rightarrow> string list" where
  "fetchCrtSh fetch domain =
     (case fetch (crt_url domain) of
        Rejected \<Rightarrow> []
      | Response ok body \<Rightarrow>
          if \<not> ok then []
          else (case body of
                  None \<Rightarrow> []
                | Some data \<Rightarrow>
                    (case iterate data of
                       None \<Rightarrow> []
                     | Some entries \<Rightarrow>
                         (case collect domain entries [] of
                            None \<Rightarrow> []
                          | Some subdomains \<Rightarrow> subdomains))))"

section \<open>The candidate aggregator\<close>

definition COMMON_SUBDOMAINS :: "string list" where
  "COMMON_SUBDOMAINS =
   [''www'', ''mail'', ''ftp'', ''webmail'', ''smtp'', ''pop'', ''ns1'', ''ns2'', ''dns'',
    ''vpn'', ''remote'', ''api'', ''app'', ''dev'', ''staging'', ''test'', ''beta'',
    ''admin'', ''portal'', ''secure'', ''login'', ''sso'', ''auth'', ''gateway'', ''cdn'',
    ''static'', ''assets'', ''img'', ''images'', ''media'', ''blog'', ''shop'', ''store'',
    ''support'', ''help'', ''docs'', ''status'', ''git'', ''gitlab'', ''jenkins'', ''ci'',
    ''jira'', ''confluence'', ''wiki'', ''forum'', ''mx'', ''mx1'', ''mx2'', ''ns'',
    ''dns1'', ''dns2'', ''m'', ''mobile'', ''internal'', ''intranet'', ''extranet'',
    ''db'', ''database'', ''mysql'', ''postgres'', ''mongo'', ''redis'', ''elastic'',
    ''kibana'', ''grafana'', ''monitor'', ''nagios'', ''prometheus'', ''logs'', ''splunk'',
    ''s3'', ''storage'', ''backup'', ''old'', ''new'', ''legacy'', ''demo'', ''sandbox'',
    ''uat'', ''qa'', ''prod'']"

text \<open>\<^verbatim>\<open>COMMON_SUBDOMAINS.map(s => `${s}.${targetDomain}`)\<close>\<close>

definition bruteforce :: "string list \<Rightarrow> string \<Rightarrow> string list" where
  "bruteforce labels targetDomain = map (\<lambda>s. s @ ''.'' @ targetDomain) labels"

text \<open>
  \<^verbatim>\<open>[...new Set([targetDomain, ...crtSubdomains, ...bruteSubdomains])].sort()\<close>:
  the default sort compares strings by their code units.
\<close>

definition combine :: "string \<Rightarrow> string list \<Rightarrow> string list \<Rightarrow> string list" where
  "combine targetDomain crtSubdomains bruteSubdomains =
     sort (new_Set (targetDomain # crtSubdomains @ bruteSubdomains))"

section \<open>The resolution engine\<close>

text \<open>
  \<^verbatim>\<open>resolve4\<close> of the environment: for each name the promise is rejected with an
  error (its code: \<^verbatim>\<open>ENOTFOUND\<close>, \<^verbatim>\<open>ETIMEOUT\<close>, ...) or fulfilled with addresses.
\<close>

datatype dns_error = DnsError string

type_synonym resolver = "string \<Rightarrow> dns_error + string list"

record alive_entry =
  subdomain :: string
  addresses :: "string list"

record check_result = alive_entry +
  alive :: bool

definition checkSubdomain :: "resolver \<Rightarrow> string \<Rightarrow> check_result" where
  "checkSubdomain resolve4 sub =
     (case resolve4 sub of
        Inr addrs \<Rightarrow> \<lparr>subdomain = sub, addresses = addrs, alive = True\<rparr>
      | Inl err \<Rightarrow> \<lparr>subdomain = sub, addresses = [], alive = False\<rparr>)"

text \<open>
  \<^verbatim>\<open>Promise.all\<close> over promises that settle in the order \<open>order\<close> (positions in the
  batch, in the order of completion) with the values \<open>ps\<close>: each completion stores its
  value at the position of its promise, and the result is delivered once every position
  is filled. \<open>None\<close>: some promise never settles and the \<^verbatim>\<open>await\<close> never returns.
\<close>

definition Promise_all :: "nat list \<Rightarrow> 'a list \<Rightarrow> 'a list option" where
  "Promise_all order ps =
     (let values = fold (\<lambda>index vs. if index < length ps then vs[index := Some (ps ! index)] else vs)
                     order (replicate (length ps) None)
      in if list_all (\<lambda>v. v \<noteq> None) values then Some (map the values) else None)"

text \<open>\<^verbatim>\<open>xs.slice(start, end)\<close> for indices that are not negative.\<close>

definition slice :: "'a list \<Rightarrow> nat \<Rightarrow> nat \<Rightarrow> 'a list" where
  "slice xs start end = take (end - start) (drop start xs)"

text \<open>The inner loop over \<^verbatim>\<open>results\<close>: alive results are pushed in the order of the array.\<close>

definition push_alive :: "check_result list \<Rightarrow> alive_entry list \<Rightarrow> alive_entry list" where
  "push_alive results acc =
     foldl (\<lambda>acc r. if check_result.alive r
                     then acc @ [\<lparr>subdomain = subdomain r, addresses = addresses r\<rparr>]
                     else acc)
       acc results"

text \<open>
  The loop over the batches, from index \<open>i\<close> on. \<open>settle i\<close> is the order in which the
  promises of the batch that starts at \<open>i\<close> complete. The source fixes
  \<^verbatim>\<open>batchSize = 20\<close>; the loop is kept generic in it. A loop that does not return
  (a batch size of 0, or a promise that never settles) has the value \<open>None\<close>.
\<close>

partial_function (option) resolve_batches ::
  "(nat \<Rightarrow> nat list) \<Rightarrow> resolver \<Rightarrow> nat \<Rightarrow> string list \<Rightarrow> nat \<Rightarrow> alive_entry list
     \<Rightarrow> alive_entry list option" where
  "resolve_batches settle resolve4 batchSize allSubdomains i acc =
     (if i < length allSubdomains
      then (case Promise_all (settle i)
                   (map (checkSubdomain resolve4) (slice allSubdomains i (i + batchSize))) of
              None \<Rightarrow> None
            | Some results \<Rightarrow>
                resolve_batches settle resolve4 batchSize allSubdomains (i + batchSize)
                  (push_alive results acc))
      else Some acc)"

declare resolve_batches.simps [code]

section \<open>The report\<close>

record summary =
  total_found :: nat
  alive_count :: nat

record report =
  domain :: string
  timestamp :: string
  sources :: "(string \<times> nat) list"
  subdomains :: "string list"
  alive :: "alive_entry list"
  summary :: summary

text \<open>
  The environment of a run: the clock, the network, the resolver and the order in
  which the promises of each batch complete.
\<close>

record environment =
  now :: string
  fetch :: "string \<Rightarrow> fetch_outcome"
  resolve4 :: resolver
  settle :: "nat \<Rightarrow> nat list"

text \<open>
  \<^verbatim>\<open>enumerateSubdomains\<close>; what it prints when \<^verbatim>\<open>--json\<close> is absent is left out, the
  returned report is the same in both modes.
\<close>

definition enumerateSubdomains :: "environment \<Rightarrow> string \<Rightarrow> report option" where
  "enumerateSubdomains env targetDomain =
     (let crtSubdomains = fetchCrtSh (fetch env) targetDomain;
          bruteSubdomains = bruteforce COMMON_SUBDOMAINS targetDomain;
          allSubdomains = combine targetDomain crtSubdomains bruteSubdomains
      in case resolve_batches (settle env) (resolve4 env) 20 allSubdomains 0 [] of
           None \<Rightarrow> None
         | Some found \<Rightarrow>
             Some \<lparr>domain = targetDomain,
                   timestamp = now env,
                   sources = [(''crt.sh'', length crtSubdomains),
                              (''bruteforce'', length bruteSubdomains)],
                   subdomains = allSubdomains,
                   alive = found,
                   summary = \<lparr>total_found = length allSubdomains,
                              alive_count = length found\<rparr>\<rparr>)"

section \<open>Notions used in the statements\<close>

text \<open>The candidate sequence of a run: \<^verbatim>\<open>allSubdomains\<close> of \<^verbatim>\<open>enumerateSubdomains\<close>.\<close>

definition candidates :: "environment \<Rightarrow> string \<Rightarrow> string list" where
  "candidates env D = combine D (fetchCrtSh (fetch env) D) (bruteforce COMMON_SUBDOMAINS D)"

text \<open>
  The alive candidates of a sequence, in the order of the sequence, each with the
  addresses the resolver returns for it.
\<close>

fun alive_in_order :: "resolver \<Rightarrow> string list \<Rightarrow> alive_entry list" where
  "alive_in_order dns [] = []"
| "alive_in_order dns (c # cs) =
     (case dns c of
        Inr addrs \<Rightarrow> \<lparr>subdomain = c, addresses = addrs\<rparr> # alive_in_order dns cs
      | Inl err \<Rightarrow> alive_in_order dns cs)"

text \<open>
  Every promise of every batch settles: each position of the batch that starts at \<open>i\<close>
  occurs in the completion order of that batch. (\<^verbatim>\<open>checkSubdomain\<close> catches every
  rejection of the resolver, so this only asks that the resolver answers or fails.)
\<close>

definition all_settle :: "(nat \<Rightarrow> nat list) \<Rightarrow> nat \<Rightarrow> string list \<Rightarrow> bool" where
  "all_settle order batchSize allSubdomains =
     (\<forall>i < length allSubdomains.
        \<forall>j < length (slice allSubdomains i (i + batchSize)). j \<in> set (order i))"

text \<open>
  The soft failures of the certificate-transparency request: the request is rejected
  (network error, timeout), the status is not a success, or the body does not parse.
\<close>

definition crt_failure :: "fetch_outcome \<Rightarrow> bool" where
  "crt_failure out =
     (case out of Rejected \<Rightarrow> True | Response ok body \<Rightarrow> \<not> ok \<or> body = None)"

text \<open>
  The normalisation of a name in the words of the specification: a leading \<^verbatim>\<open>*.\<close>
  marker is stripped and the name is lower-cased.
\<close>

definition spec_strip_leading_wildcard :: "string \<Rightarrow> string" where
  "spec_strip_leading_wildcard n = (if startsWith n ''*.'' then drop 2 n else n)"

definition spec_normalize_name :: "string \<Rightarrow> string" where
  "spec_normalize_name n = toLowerCase (spec_strip_leading_wildcard n)"

text \<open>
  Membership of a name in a domain in the words of the specification: the name is the
  domain or ends with the domain after a \<^verbatim>\<open>.\<close> boundary.
\<close>

definition spec_belongs :: "string \<Rightarrow> string \<Rightarrow> bool" where
  "spec_belongs n D = (n = D \<or> endsWith n (''.'' @ D))"

subsection \<open>An example run\<close>

text \<open>
  A response of the certificate log with one record per string, and the scenario of
  the specification: the log returns three names, the resolver knows the root domain
  only, and the promises of each batch complete in reverse order.
\<close>

definition crt_record :: "string \<Rightarrow> json" where
  "crt_record s = JObject [(''issuer_ca_id'', JNumber 183267), (''name_value'', JString s)]"

definition crt_response :: "string list \<Rightarrow> fetch_outcome" where
  "crt_response ss = Response True (Some (JArray (map crt_record ss)))"

definition example_resolver :: resolver where
  "example_resolver c =
     (if c = ''example.com'' then Inr [''93.184.216.34''] else Inl (DnsError ''ENOTFOUND''))"

definition example_env :: environment where
  "example_env =
     \<lparr>now = ''2024-01-01T00:00:00.000Z'',
      fetch = (\<lambda>url. crt_response [''www.example.com'', ''*.api.example.com'', ''EVIL-example.com'']),
      resolve4 = example_resolver,
      settle = (\<lambda>i. rev [0..<20])\<rparr>"

text \<open>The example run with a certificate-transparency request that ends in \<open>out\<close>.\<close>

definition failing_env :: "fetch_outcome \<Rightarrow> environment" where
  "failing_env out = example_env\<lparr>fetch := \<lambda>url. out\<rparr>"

text \<open>A sorted candidate sequence and a resolver with successes, a timeout and unknown names.\<close>

definition example_candidates :: "string list" where
  "example_candidates = [''a.example.com'', ''api.example.com'', ''b.example.com'', ''example.com'',
      ''mail.example.com'', ''www.example.com'', ''x.example.com'']"

definition mixed_resolver :: resolver where
  "mixed_resolver c =
     (if c = ''example.com'' \<or> c = ''www.example.com'' then Inr [''93.184.216.34'']
      else if c = ''b.example.com'' then Inr [''10.0.0.1'', ''10.0.0.2'']
      else if c = ''a.example.com'' then Inl (DnsError ''ETIMEOUT'')
      else Inl (DnsError ''ENOTFOUND''))"

text \<open>The example run with a resolver that knows four of the candidates.\<close>

definition busy_resolver :: resolver where
  "busy_resolver c =
     (if c = ''www.example.com'' then Inr [''93.184.216.34'']
      else if c = ''example.com'' then Inr [''93.184.216.34'']
      else if c = ''mail.example.com'' then Inr [''198.51.100.7'', ''198.51.100.8'']
      else if c = ''api.example.com'' then Inr [''203.0.113.5'']
      else if c = ''ftp.example.com'' then Inl (DnsError ''ETIMEOUT'')
      else Inl (DnsError ''ENOTFOUND''))"

definition busy_env :: environment where
  "busy_env = example_env\<lparr>resolve4 := busy_resolver\<rparr>"

section \<open>Strings and sets: auxiliary facts\<close>

lemma of_char_toLowerCase_char:
  "of_char (toLowerCase_char c) =
     (if (65 \<le> (of_char c :: nat) \<and> (of_char c :: nat) \<le> 90)
         \<or> (192 \<le> (of_char c :: nat) \<and> (of_char c :: nat) \<le> 222 \<and> (of_char c :: nat) \<noteq> 215)
      then of_char c + 32 else (of_char c :: nat))"
proof -
  have "c \<noteq> CHR 0xD7 \<longleftrightarrow> (of_char c :: nat) \<noteq> 215"
    using of_char_eq_iff [of c "CHR 0xD7", where ?'a = nat] by simp
  then show ?thesis
    by (simp add: toLowerCase_char_def less_eq_char_def)
qed

lemma toLowerCase_char_idem: "toLowerCase_char (toLowerCase_char c) = toLowerCase_char c"
proof -
  have "(of_char (toLowerCase_char (toLowerCase_char c)) :: nat) = of_char (toLowerCase_char c)"
    by (simp add: of_char_toLowerCase_char)
  then show ?thesis by (simp only: of_char_eq_iff)
qed

lemma toLowerCase_idem: "toLowerCase (toLowerCase s) = toLowerCase s"
  by (simp add: toLowerCase_def toLowerCase_char_idem)

lemma length_toLowerCase: "length (toLowerCase s) = length s"
  by (simp add: toLowerCase_def)

lemma endsWith_iff: "endsWith s d \<longleftrightarrow> (\<exists>p. s = p @ d)"
proof
  assume "endsWith s d"
  then have "s = take (length s - length d) s @ d"
    by (metis append_take_drop_id endsWith_def)
  then show "\<exists>p. s = p @ d" ..
next
  assume "\<exists>p. s = p @ d"
  then show "endsWith s d" by (auto simp: endsWith_def)
qed

lemma replace_first_wildcard:
  "CHR ''*'' \<notin> set p \<Longrightarrow> replace (p @ ''*.'' @ s) ''*.'' '''' = p @ s"
  by (induction p) (auto simp: startsWith_def)

lemma replace_no_wildcard: "CHR ''*'' \<notin> set n \<Longrightarrow> replace n ''*.'' '''' = n"
  by (induction n) (auto simp: startsWith_def)

lemma toLowerCase_normalize_name: "toLowerCase (normalize_name raw) = normalize_name raw"
  by (simp add: normalize_name_def toLowerCase_idem)

lemma set_Set_add: "set (Set_add s x) = insert x (set s)"
  by (auto simp: Set_add_def)

lemma distinct_Set_add: "distinct s \<Longrightarrow> distinct (Set_add s x)"
  by (simp add: Set_add_def)

lemma set_foldl_Set_add: "set (foldl Set_add acc xs) = set acc \<union> set xs"
  by (induction xs arbitrary: acc) (auto simp: set_Set_add)

lemma distinct_foldl_Set_add: "distinct acc \<Longrightarrow> distinct (foldl Set_add acc xs)"
  by (induction xs arbitrary: acc) (auto simp: distinct_Set_add)

lemma set_new_Set: "set (new_Set xs) = set xs"
  by (simp add: new_Set_def set_foldl_Set_add)

lemma distinct_new_Set: "distinct (new_Set xs)"
  by (simp add: new_Set_def distinct_foldl_Set_add)

section \<open>The certificate-transparency source: auxiliary facts\<close>

lemma set_add_names:
  "set (add_names D names subs) = set subs \<union> {n \<in> set names. keeps D n}"
  unfolding add_names_def
  by (induction names arbitrary: subs) (auto simp: set_Set_add)

lemma distinct_add_names: "distinct subs \<Longrightarrow> distinct (add_names D names subs)"
  unfolding add_names_def
  by (induction names arbitrary: subs) (auto simp: distinct_Set_add)

lemma collect_None_iff:
  "collect D es subs = None \<longleftrightarrow> (\<exists>e \<in> set es. name_value e = None)"
  by (induction es arbitrary: subs) (auto split: option.splits)

lemma set_collect:
  "collect D es subs = Some r \<Longrightarrow>
   set r = set subs \<union> {n. \<exists>e \<in> set es. \<exists>name. name_value e = Some name \<and> n \<in> set (names_of name) \<and> keeps D n}"
proof (induction es arbitrary: subs)
  case Nil
  then show ?case by simp
next
  case (Cons e es)
  then obtain name where nv: "name_value e = Some name"
    and rest: "collect D es (add_names D (names_of name) subs) = Some r"
    by (auto split: option.splits)
  from Cons.IH [OF rest] nv show ?case
    by (auto simp: set_add_names)
qed

lemma distinct_collect: "collect D es subs = Some r \<Longrightarrow> distinct subs \<Longrightarrow> distinct r"
  by (induction es arbitrary: subs) (auto split: option.splits simp: distinct_add_names)

lemma fetchCrtSh_collect:
  "f (crt_url D) = Response True (Some data) \<Longrightarrow> iterate data = Some es \<Longrightarrow>
   fetchCrtSh f D = (case collect D es [] of None \<Rightarrow> [] | Some r \<Rightarrow> r)"
  by (simp add: fetchCrtSh_def)

lemma fetchCrtSh_nonempty:
  assumes "fetchCrtSh f D \<noteq> []"
  shows "\<exists>data es. f (crt_url D) = Response True (Some data) \<and> iterate data = Some es \<and>
           collect D es [] = Some (fetchCrtSh f D)"
proof (cases "f (crt_url D)")
  case Rejected
  with assms show ?thesis by (simp add: fetchCrtSh_def)
next
  case (Response ok body)
  with assms have ok: "ok" by (auto simp: fetchCrtSh_def split: if_splits)
  from assms Response ok obtain data where body: "body = Some data"
    by (cases body) (auto simp: fetchCrtSh_def)
  from assms Response ok body obtain es where es: "iterate data = Some es"
    by (cases "iterate data") (auto simp: fetchCrtSh_def)
  from assms Response ok body es obtain r where r: "collect D es [] = Some r"
    by (cases "collect D es []") (auto simp: fetchCrtSh_def)
  with Response ok body es have "fetchCrtSh f D = r" by (simp add: fetchCrtSh_def)
  with Response ok body es r show ?thesis by simp
qed

lemma fetchCrtSh_member:
  assumes "n \<in> set (fetchCrtSh f D)"
  shows "\<exists>raw. n = normalize_name raw \<and> keeps D n"
proof -
  from assms have "fetchCrtSh f D \<noteq> []" by auto
  then obtain data es where "collect D es [] = Some (fetchCrtSh f D)"
    using fetchCrtSh_nonempty by blast
  from set_collect [OF this] assms show ?thesis
    by (auto simp: names_of_def)
qed

lemma distinct_fetchCrtSh: "distinct (fetchCrtSh f D)"
proof (cases "fetchCrtSh f D = []")
  case True
  then show ?thesis by simp
next
  case False
  then obtain data es where "collect D es [] = Some (fetchCrtSh f D)"
    using fetchCrtSh_nonempty by blast
  then show ?thesis by (rule distinct_collect) simp
qed

lemma fetchCrtSh_no_wildcard: "n \<in> set (fetchCrtSh f D) \<Longrightarrow> CHR ''*'' \<notin> set n"
  using fetchCrtSh_member [of n f D] by (auto simp: keeps_def includes_char_def)

lemma toLowerCase_append: "toLowerCase (p @ d) = toLowerCase p @ toLowerCase d"
  by (simp add: toLowerCase_def)

text \<open>
  The names are lower-cased before \<^verbatim>\<open>n.endsWith(domain)\<close> and the domain is not: a
  domain with an upper-case letter keeps no name at all.
\<close>

lemma fetchCrtSh_mixed_case_domain:
  assumes "D \<noteq> toLowerCase D"
  shows "fetchCrtSh f D = []"
proof (rule ccontr)
  assume "fetchCrtSh f D \<noteq> []"
  then obtain n where "n \<in> set (fetchCrtSh f D)"
    by (cases "fetchCrtSh f D") auto
  then obtain raw where n: "n = normalize_name raw" and k: "keeps D n"
    using fetchCrtSh_member by blast
  from k obtain p where p: "n = p @ D"
    by (auto simp: keeps_def endsWith_iff)
  from n have "toLowerCase n = n"
    by (simp add: toLowerCase_normalize_name)
  with p have "toLowerCase p @ toLowerCase D = p @ D"
    by (simp add: toLowerCase_append)
  then have "toLowerCase D = D"
    by (simp add: length_toLowerCase)
  with assms show False by simp
qed

lemma fetchCrtSh_well_formed:
  assumes "f (crt_url D) = Response True (Some (JArray es))"
    and "\<forall>e \<in> set es. name_value e \<noteq> None"
  shows "set (fetchCrtSh f D) =
           {n. \<exists>e \<in> set es. \<exists>name. name_value e = Some name \<and> n \<in> set (names_of name) \<and> keeps D n}"
proof -
  from assms(2) have "collect D es [] \<noteq> None"
    by (simp add: collect_None_iff)
  then obtain r where r: "collect D es [] = Some r" by auto
  with assms(1) have "fetchCrtSh f D = r"
    by (simp add: fetchCrtSh_def)
  with set_collect [OF r] show ?thesis by simp
qed

section \<open>The candidate aggregator: auxiliary facts\<close>

lemma set_combine: "set (combine D crt brute) = insert D (set crt \<union> set brute)"
  by (simp add: combine_def set_new_Set)

lemma distinct_combine: "distinct (combine D crt brute)"
  by (simp add: combine_def distinct_new_Set)

lemma sorted_combine: "sorted (combine D crt brute)"
  by (simp add: combine_def)

lemma distinct_COMMON_SUBDOMAINS: "distinct COMMON_SUBDOMAINS"
  by (simp add: COMMON_SUBDOMAINS_def)

lemma length_bruteforce: "length (bruteforce COMMON_SUBDOMAINS D) = 81"
  by (simp add: bruteforce_def COMMON_SUBDOMAINS_def)

lemma distinct_bruteforce: "distinct labels \<Longrightarrow> distinct (bruteforce labels D)"
  by (simp add: bruteforce_def distinct_map inj_on_def)

lemma root_not_bruteforce: "D \<notin> set (bruteforce labels D)"
proof
  assume "D \<in> set (bruteforce labels D)"
  then obtain s where "D = s @ ''.'' @ D" by (auto simp: bruteforce_def)
  then have "length D = length (s @ ''.'' @ D)" by simp
  then show False by simp
qed

lemma length_combine_bruteforce:
  "length (combine D [] (bruteforce COMMON_SUBDOMAINS D)) = 82"
proof -
  have "length (combine D [] (bruteforce COMMON_SUBDOMAINS D))
          = card (set (combine D [] (bruteforce COMMON_SUBDOMAINS D)))"
    by (simp add: distinct_card distinct_combine)
  also have "\<dots> = Suc (card (set (bruteforce COMMON_SUBDOMAINS D)))"
    by (simp add: set_combine root_not_bruteforce)
  also have "card (set (bruteforce COMMON_SUBDOMAINS D)) = 81"
    by (simp add: distinct_card distinct_bruteforce distinct_COMMON_SUBDOMAINS length_bruteforce)
  finally show ?thesis by simp
qed

section \<open>The resolution engine: auxiliary facts\<close>

lemma fold_settle:
  "length vs = length ps \<Longrightarrow>
   fold (\<lambda>index vs. if index < length ps then vs[index := Some (ps ! index)] else vs) order vs =
   map (\<lambda>j. if j \<in> set order then Some (ps ! j) else vs ! j) [0..<length ps]"
proof (induction order arbitrary: vs)
  case Nil
  then show ?case using map_nth [of vs] by simp
next
  case (Cons i order)
  have "fold (\<lambda>index vs. if index < length ps then vs[index := Some (ps ! index)] else vs) (i # order) vs
          = map (\<lambda>j. if j \<in> set order then Some (ps ! j)
                       else (if i < length ps then vs[i := Some (ps ! i)] else vs) ! j) [0..<length ps]"
    using Cons.prems by (simp add: Cons.IH)
  also have "\<dots> = map (\<lambda>j. if j \<in> set (i # order) then Some (ps ! j) else vs ! j) [0..<length ps]"
    using Cons.prems by (intro map_cong refl) (simp add: nth_list_update)
  finally show ?case .
qed

lemma Promise_all_settled:
  assumes "\<forall>j < length ps. j \<in> set order"
  shows "Promise_all order ps = Some ps"
proof -
  have "fold (\<lambda>index vs. if index < length ps then vs[index := Some (ps ! index)] else vs)
          order (replicate (length ps) None) = map (\<lambda>j. Some (ps ! j)) [0..<length ps]"
    using assms by (simp add: fold_settle)
  also have "\<dots> = map Some (map ((!) ps) [0..<length ps])"
    by (simp add: comp_def)
  also have "\<dots> = map Some ps"
    by (simp only: map_nth)
  finally show ?thesis
    by (simp add: Promise_all_def list_all_iff comp_def)
qed

lemma alive_in_order_append:
  "alive_in_order dns (xs @ ys) = alive_in_order dns xs @ alive_in_order dns ys"
  by (induction xs) (auto split: sum.splits)

lemma push_alive_eq:
  "push_alive (map (checkSubdomain dns) cs) acc = acc @ alive_in_order dns cs"
  unfolding push_alive_def
  by (induction cs arbitrary: acc) (auto simp: checkSubdomain_def split: sum.splits)

lemma subdomain_alive_in_order:
  "map subdomain (alive_in_order dns cs) = filter (\<lambda>c. \<not> isl (dns c)) cs"
  by (induction cs) (auto split: sum.splits)

lemma set_alive_in_order:
  "set (alive_in_order dns cs) = {\<lparr>subdomain = c, addresses = a\<rparr> | c a. c \<in> set cs \<and> dns c = Inr a}"
  by (induction cs) (auto split: sum.splits)

lemma sorted_alive_in_order: "sorted cs \<Longrightarrow> sorted (map subdomain (alive_in_order dns cs))"
  by (simp add: subdomain_alive_in_order sorted_wrt_filter)

lemma drop_slice: "drop i xs = slice xs i (i + B) @ drop (i + B) xs"
  by (simp add: slice_def add.commute [of i B] flip: drop_drop)

lemma resolve_batches_eq:
  assumes B: "0 < B" and st: "all_settle order B cands"
  shows "resolve_batches order dns B cands i acc = Some (acc @ alive_in_order dns (drop i cands))"
proof (induction "length cands - i" arbitrary: i acc rule: less_induct)
  case less
  show ?case
  proof (cases "i < length cands")
    case False
    then show ?thesis by (subst resolve_batches.simps) simp
  next
    case True
    let ?batch = "slice cands i (i + B)"
    from st True have "\<forall>j < length ?batch. j \<in> set (order i)"
      by (simp add: all_settle_def)
    then have pa: "Promise_all (order i) (map (checkSubdomain dns) ?batch)
                     = Some (map (checkSubdomain dns) ?batch)"
      by (simp add: Promise_all_settled)
    have "length cands - (i + B) < length cands - i"
      using B True by arith
    then have IH: "resolve_batches order dns B cands (i + B) (push_alive (map (checkSubdomain dns) ?batch) acc)
             = Some (push_alive (map (checkSubdomain dns) ?batch) acc @ alive_in_order dns (drop (i + B) cands))"
      by (rule less)
    have "resolve_batches order dns B cands i acc
            = Some (push_alive (map (checkSubdomain dns) ?batch) acc @ alive_in_order dns (drop (i + B) cands))"
      by (subst resolve_batches.simps) (simp add: True pa IH)
    also have "\<dots> = Some (acc @ alive_in_order dns (?batch @ drop (i + B) cands))"
      by (simp add: push_alive_eq alive_in_order_append)
    also have "?batch @ drop (i + B) cands = drop i cands"
      by (rule drop_slice [symmetric])
    finally show ?thesis .
  qed
qed

text \<open>With a batch size of 0 the loop never leaves its first batch.\<close>

lemma resolve_batches_zero_Some:
  assumes "resolve_batches order dns B cands i acc = Some found"
  shows "B = 0 \<longrightarrow> length cands \<le> i"
proof (rule resolve_batches.raw_induct
         [where P = "\<lambda>order dns B cands i acc found. B = 0 \<longrightarrow> length cands \<le> i", OF _ assms])
  fix loop :: "(nat \<Rightarrow> nat list) \<Rightarrow> resolver \<Rightarrow> nat \<Rightarrow> string list \<Rightarrow> nat \<Rightarrow> alive_entry list
                 \<Rightarrow> alive_entry list option"
    and order dns B cands i acc found
  assume IH: "\<And>order dns B cands i acc found.
                 loop order dns B cands i acc = Some found \<Longrightarrow> B = 0 \<longrightarrow> length cands \<le> i"
    and step: "(if i < length cands
                then case Promise_all (order i) (map (checkSubdomain dns) (slice cands i (i + B))) of
                       None \<Rightarrow> None
                     | Some results \<Rightarrow> loop order dns B cands (i + B) (push_alive results acc)
                else Some acc) = Some found"
  show "B = 0 \<longrightarrow> length cands \<le> i"
  proof (cases "i < length cands")
    case False
    then show ?thesis by simp
  next
    case True
    with step obtain results
      where "loop order dns B cands (i + B) (push_alive results acc) = Some found"
      by (auto split: option.splits)
    then have "B = 0 \<longrightarrow> length cands \<le> i + B"
      by (rule IH)
    then show ?thesis by auto
  qed
qed

lemma resolve_batches_zero:
  "i < length cands \<Longrightarrow> resolve_batches order dns 0 cands i acc = None"
  using resolve_batches_zero_Some [of order dns 0 cands i acc]
  by (cases "resolve_batches order dns 0 cands i acc") auto

text \<open>A run in which every promise settles returns this report.\<close>

lemma enumerateSubdomains_eq:
  assumes "all_settle (settle env) 20 (candidates env D)"
  shows "enumerateSubdomains env D =
           Some \<lparr>domain = D, timestamp = now env,
                 sources = [(''crt.sh'', length (fetchCrtSh (fetch env) D)),
                            (''bruteforce'', length (bruteforce COMMON_SUBDOMAINS D))],
                 subdomains = candidates env D,
                 alive = alive_in_order (resolve4 env) (candidates env D),
                 summary = \<lparr>total_found = length (candidates env D),
                            alive_count = length (alive_in_order (resolve4 env) (candidates env D))\<rparr>\<rparr>"
proof -
  have "resolve_batches (settle env) (resolve4 env) 20 (candidates env D) 0 []
          = Some (alive_in_order (resolve4 env) (candidates env D))"
    using resolve_batches_eq [OF _ assms, where i = 0 and dns = "resolve4 env" and acc = "[]"] by simp
  then show ?thesis
    by (simp add: enumerateSubdomains_def candidates_def Let_def)
qed

lemma all_settle_rev: "B \<le> n \<Longrightarrow> all_settle (\<lambda>i. rev [0..<n]) B cands"
  by (auto simp: all_settle_def slice_def)

lemma candidates_example_settle: "all_settle (settle example_env) 20 cands"
  by (simp add: example_env_def all_settle_rev)

section \<open>The certificate-transparency source: properties\<close>

text \<open>
  Claim C1. A name is kept only when it is the domain or ends with the domain after a
  \<^verbatim>\<open>.\<close> boundary. The program tests \<^verbatim>\<open>n.endsWith(domain)\<close> with no boundary:
  for the domain \<^verbatim>\<open>example.com\<close> it keeps \<^verbatim>\<open>evil-example.com\<close> and
  \<^verbatim>\<open>notexample.com\<close> beside \<^verbatim>\<open>sub.example.com\<close>, although neither of the two
  belongs to the domain. The theorem evaluates the program at this input.
\<close>

theorem crt_suffix_no_boundary:
  "fetchCrtSh (\<lambda>url. crt_response [''sub.example.com'', ''evil-example.com'', ''notexample.com''])
     ''example.com''
   = [''sub.example.com'', ''evil-example.com'', ''notexample.com'']
   \<and> \<not> spec_belongs ''evil-example.com'' ''example.com''
   \<and> \<not> spec_belongs ''notexample.com'' ''example.com''
   \<and> spec_belongs ''sub.example.com'' ''example.com''"
  by code_simp

text \<open>
  Claim C5. A leading \<^verbatim>\<open>*.\<close> marker is stripped and the name lower-cased, and a name
  that still contains \<^verbatim>\<open>*\<close> after that is discarded. The program removes the first
  occurrence of \<^verbatim>\<open>*.\<close> wherever it stands (\<^verbatim>\<open>n.replace('*.', '')\<close>), which
  defeats its own test \<^verbatim>\<open>!n.includes('*')\<close>: \<^verbatim>\<open>a.*.example.com\<close> and
  \<^verbatim>\<open>a*.b.example.com\<close> have no leading marker and contain \<^verbatim>\<open>*\<close>, yet they are
  not discarded but contribute the names \<^verbatim>\<open>a.example.com\<close> and \<^verbatim>\<open>ab.example.com\<close>,
  which no certificate carries. On the names of the claim the program agrees with it:
  \<^verbatim>\<open>*.api.example.com\<close> yields \<^verbatim>\<open>api.example.com\<close>, and \<^verbatim>\<open>*.*.example.com\<close>, of
  wildcard depth two, is discarded. The theorem evaluates the program at these inputs.
\<close>

theorem crt_unanchored_wildcard:
  "fetchCrtSh (\<lambda>url. crt_response [''*.api.example.com'', ''*.*.example.com'',
                                     ''a.*.example.com'', ''a*.b.example.com''])
     ''example.com''
   = [''api.example.com'', ''a.example.com'', ''ab.example.com'']
   \<and> includes_char (spec_normalize_name ''a.*.example.com'') (CHR ''*'')
   \<and> includes_char (spec_normalize_name ''a*.b.example.com'') (CHR ''*'')
   \<and> spec_normalize_name ''*.api.example.com'' = ''api.example.com''
   \<and> includes_char (spec_normalize_name ''*.*.example.com'') (CHR ''*'')"
  by code_simp



text \<open>
  Claim C6. When the certificate-transparency request is rejected (network error or
  timeout), answers with a status that is not a success, or delivers a body that does
  not parse, the source yields the empty list, and the run still returns a full report:
  the root domain and the 81 bruteforce names are the candidates, and each is resolved.
\<close>

theorem crt_soft_failure:
  assumes "crt_failure (fetch env (crt_url D))"
    and "all_settle (settle env) 20 (combine D [] (bruteforce COMMON_SUBDOMAINS D))"
  shows "fetchCrtSh (fetch env) D = []
       \<and> enumerateSubdomains env D =
           Some \<lparr>domain = D, timestamp = now env,
                 sources = [(''crt.sh'', 0), (''bruteforce'', 81)],
                 subdomains = combine D [] (bruteforce COMMON_SUBDOMAINS D),
                 alive = alive_in_order (resolve4 env) (combine D [] (bruteforce COMMON_SUBDOMAINS D)),
                 summary = \<lparr>total_found = 82,
                            alive_count = length (alive_in_order (resolve4 env)
                                            (combine D [] (bruteforce COMMON_SUBDOMAINS D)))\<rparr>\<rparr>"
proof -
  from assms(1) have crt: "fetchCrtSh (fetch env) D = []"
    by (auto simp: crt_failure_def fetchCrtSh_def split: fetch_outcome.splits)
  then have cand: "candidates env D = combine D [] (bruteforce COMMON_SUBDOMAINS D)"
    by (simp add: candidates_def)
  with assms(2) have "all_settle (settle env) 20 (candidates env D)"
    by simp
  from enumerateSubdomains_eq [OF this] crt show ?thesis
    by (simp add: cand length_bruteforce length_combine_bruteforce)
qed

text \<open>An instance: the example run with each of the three kinds of failure.\<close>

theorem crt_soft_failure_witness:
  "crt_failure Rejected
   \<and> crt_failure (Response False (Some (JArray [crt_record ''www.example.com''])))
   \<and> crt_failure (Response True None)
   \<and> all_settle (settle (failing_env Rejected)) 20 (combine ''example.com'' [] (bruteforce COMMON_SUBDOMAINS ''example.com''))
   \<and> fetchCrtSh (fetch (failing_env Rejected)) ''example.com'' = []
   \<and> fetchCrtSh (fetch (failing_env (Response False (Some (JArray [crt_record ''www.example.com''])))))
        ''example.com'' = []
   \<and> fetchCrtSh (fetch (failing_env (Response True None))) ''example.com'' = []
   \<and> (\<exists>r. enumerateSubdomains (failing_env Rejected) ''example.com'' = Some r
          \<and> sources r = [(''crt.sh'', 0), (''bruteforce'', 81)]
          \<and> total_found (summary r) = 82)
   \<and> (\<exists>r. enumerateSubdomains (failing_env (Response False (Some (JArray [crt_record ''www.example.com'']))))
             ''example.com'' = Some r \<and> total_found (summary r) = 82)
   \<and> (\<exists>r. enumerateSubdomains (failing_env (Response True None)) ''example.com'' = Some r
          \<and> total_found (summary r) = 82)"
proof -
  let ?D = "''example.com''"
  let ?bad = "Response False (Some (JArray [crt_record ''www.example.com'']))"
  have f: "crt_failure Rejected" "crt_failure ?bad" "crt_failure (Response True None)"
    by (simp_all add: crt_failure_def)
  have s: "all_settle (settle (failing_env out)) 20 (combine ?D [] (bruteforce COMMON_SUBDOMAINS ?D))" for out
    by (simp add: failing_env_def example_env_def all_settle_rev)
  have hyp: "crt_failure (fetch (failing_env out) (crt_url ?D))" if "crt_failure out" for out
    using that by (simp add: failing_env_def)
  note th = crt_soft_failure [OF hyp s]
  from th [OF f(1)] have r1: "fetchCrtSh (fetch (failing_env Rejected)) ?D = []"
    and e1: "\<exists>r. enumerateSubdomains (failing_env Rejected) ?D = Some r
          \<and> sources r = [(''crt.sh'', 0), (''bruteforce'', 81)] \<and> total_found (summary r) = 82"
    by simp_all
  from th [OF f(2)] have r2: "fetchCrtSh (fetch (failing_env ?bad)) ?D = []"
    and e2: "\<exists>r. enumerateSubdomains (failing_env ?bad) ?D = Some r \<and> total_found (summary r) = 82"
    by simp_all
  from th [OF f(3)] have r3: "fetchCrtSh (fetch (failing_env (Response True None))) ?D = []"
    and e3: "\<exists>r. enumerateSubdomains (failing_env (Response True None)) ?D = Some r \<and> total_found (summary r) = 82"
    by simp_all
  from f s [of Rejected] r1 r2 r3 e1 e2 e3 show ?thesis
    by (intro conjI)
qed

section \<open>The candidate aggregator: properties\<close>

text \<open>
  Claim C2. The aggregation step returns the union of the root domain, the
  certificate-transparency names and the bruteforce names, each string once, sorted in
  ascending lexicographic order; the root domain is always an element, and it is the
  only one when both sources contribute nothing.
\<close>

theorem combine_union_sorted:
  "set (combine D crtSubdomains bruteSubdomains) = {D} \<union> set crtSubdomains \<union> set bruteSubdomains
   \<and> distinct (combine D crtSubdomains bruteSubdomains)
   \<and> sorted (combine D crtSubdomains bruteSubdomains)
   \<and> D \<in> set (combine D crtSubdomains bruteSubdomains)
   \<and> combine D [] [] = [D]"
proof -
  have "combine D [] [] = [D]"
    by (simp add: combine_def new_Set_def Set_add_def)
  then show ?thesis
    by (simp add: set_combine distinct_combine sorted_combine)
qed

text \<open>
  Claim C8. The root domain is a case-insensitive identifier: a domain and its
  lower-cased form classify the same names of the certificate log as belonging and have
  the same candidates. The program lower-cases the names of the log and compares them
  with the domain as it was typed, so for \<^verbatim>\<open>Example.com\<close> no name of the log is kept
  (see \<open>fetchCrtSh_mixed_case_domain\<close> for every such domain), while for
  \<^verbatim>\<open>example.com\<close> the names of the same response are kept, and
  \<^verbatim>\<open>intra-eu.example.com\<close>, which only the log knows, is a candidate of the second
  run and not of the first. The theorem evaluates the program at this input.
\<close>

theorem crt_mixed_case_domain:
  "fetchCrtSh (\<lambda>url. crt_response [''www.example.com'', ''*.api.example.com'', ''intra-eu.example.com''])
     ''Example.com'' = []
   \<and> fetchCrtSh (\<lambda>url. crt_response [''www.example.com'', ''*.api.example.com'', ''intra-eu.example.com''])
       (toLowerCase ''Example.com'') = [''www.example.com'', ''api.example.com'', ''intra-eu.example.com'']
   \<and> toLowerCase ''Example.com'' = ''example.com''
   \<and> ''intra-eu.example.com'' \<notin> set (candidates (failing_env (crt_response [''intra-eu.example.com''])) ''Example.com'')
   \<and> ''intra-eu.example.com'' \<in> set (candidates (failing_env (crt_response [''intra-eu.example.com''])) ''example.com'')"
  by code_simp

section \<open>The resolution engine: properties\<close>

text \<open>
  Claim C7. A candidate whose resolution succeeds has the outcome alive with the
  returned addresses, a candidate whose resolution fails with any error has the outcome
  not alive with no addresses. No failure ends the run: when every promise settles, the
  report exists, and each candidate is in the alive list with its addresses exactly
  when its own resolution succeeds, whatever happens to the other candidates.
\<close>

theorem fault_isolation:
  assumes "all_settle (settle env) 20 (candidates env D)"
  shows "(\<forall>c addrs. resolve4 env c = Inr addrs \<longrightarrow>
            checkSubdomain (resolve4 env) c = \<lparr>subdomain = c, addresses = addrs, check_result.alive = True\<rparr>)
       \<and> (\<forall>c err. resolve4 env c = Inl err \<longrightarrow>
            checkSubdomain (resolve4 env) c = \<lparr>subdomain = c, addresses = [], check_result.alive = False\<rparr>)
       \<and> (\<exists>r. enumerateSubdomains env D = Some r \<and> subdomains r = candidates env D
             \<and> (\<forall>c \<in> set (subdomains r).
                   (\<forall>addrs. resolve4 env c = Inr addrs \<longrightarrow>
                        \<lparr>subdomain = c, addresses = addrs\<rparr> \<in> set (alive r))
                 \<and> (\<forall>err. resolve4 env c = Inl err \<longrightarrow> c \<notin> subdomain ` set (alive r))))"
proof -
  let ?cands = "candidates env D"
  let ?found = "alive_in_order (resolve4 env) ?cands"
  note run = enumerateSubdomains_eq [OF assms]
  have ok: "\<lparr>subdomain = c, addresses = addrs\<rparr> \<in> set ?found"
    if "c \<in> set ?cands" and "resolve4 env c = Inr addrs" for c addrs
    using that by (simp add: set_alive_in_order)
  have dead: "c \<notin> subdomain ` set ?found" if "resolve4 env c = Inl err" for c err
    using that by (auto simp: set_alive_in_order)
  have "\<forall>c \<in> set ?cands.
          (\<forall>addrs. resolve4 env c = Inr addrs \<longrightarrow> \<lparr>subdomain = c, addresses = addrs\<rparr> \<in> set ?found)
        \<and> (\<forall>err. resolve4 env c = Inl err \<longrightarrow> c \<notin> subdomain ` set ?found)"
    using ok dead by blast
  then have "\<exists>r. enumerateSubdomains env D = Some r \<and> subdomains r = ?cands
             \<and> (\<forall>c \<in> set (subdomains r).
                   (\<forall>addrs. resolve4 env c = Inr addrs \<longrightarrow>
                        \<lparr>subdomain = c, addresses = addrs\<rparr> \<in> set (alive r))
                 \<and> (\<forall>err. resolve4 env c = Inl err \<longrightarrow> c \<notin> subdomain ` set (alive r)))"
    by (simp add: run)
  then show ?thesis
    by (simp add: checkSubdomain_def)
qed

text \<open>
  An instance: in the example run \<^verbatim>\<open>api.example.com\<close>, in the first batch, fails
  and \<^verbatim>\<open>example.com\<close>, in the second batch, is alive.
\<close>

theorem fault_isolation_witness:
  "all_settle (settle example_env) 20 (candidates example_env ''example.com'')
   \<and> resolve4 example_env ''api.example.com'' = Inl (DnsError ''ENOTFOUND'')
   \<and> resolve4 example_env ''example.com'' = Inr [''93.184.216.34'']
   \<and> checkSubdomain (resolve4 example_env) ''api.example.com''
        = \<lparr>subdomain = ''api.example.com'', addresses = [], check_result.alive = False\<rparr>
   \<and> checkSubdomain (resolve4 example_env) ''example.com''
        = \<lparr>subdomain = ''example.com'', addresses = [''93.184.216.34''], check_result.alive = True\<rparr>
   \<and> (\<exists>r. enumerateSubdomains example_env ''example.com'' = Some r
         \<and> \<lparr>subdomain = ''example.com'', addresses = [''93.184.216.34'']\<rparr> \<in> set (alive r)
         \<and> ''api.example.com'' \<notin> subdomain ` set (alive r))"
proof -
  have h: "all_settle (settle example_env) 20 (candidates example_env ''example.com'')"
    by (rule candidates_example_settle)
  have a: "resolve4 example_env ''api.example.com'' = Inl (DnsError ''ENOTFOUND'')"
    and b: "resolve4 example_env ''example.com'' = Inr [''93.184.216.34'']"
    by (simp_all add: example_env_def example_resolver_def)
  have c: "''example.com'' \<in> set (candidates example_env ''example.com'')"
    by (simp add: candidates_def set_combine)
  have d: "''api.example.com'' \<in> set (candidates example_env ''example.com'')"
    by (simp add: candidates_def set_combine bruteforce_def COMMON_SUBDOMAINS_def)
  note fi = fault_isolation [OF h]
  from fi a b have chk:
    "checkSubdomain (resolve4 example_env) ''api.example.com''
        = \<lparr>subdomain = ''api.example.com'', addresses = [], check_result.alive = False\<rparr>"
    "checkSubdomain (resolve4 example_env) ''example.com''
        = \<lparr>subdomain = ''example.com'', addresses = [''93.184.216.34''], check_result.alive = True\<rparr>"
    by blast+
  from fi obtain r where r: "enumerateSubdomains example_env ''example.com'' = Some r"
    and sub: "subdomains r = candidates example_env ''example.com''"
    and cls: "\<forall>c \<in> set (subdomains r).
                   (\<forall>addrs. resolve4 example_env c = Inr addrs \<longrightarrow>
                        \<lparr>subdomain = c, addresses = addrs\<rparr> \<in> set (alive r))
                 \<and> (\<forall>err. resolve4 example_env c = Inl err \<longrightarrow> c \<notin> subdomain ` set (alive r))"
    by blast
  from c sub have "''example.com'' \<in> set (subdomains r)"
    by simp
  from bspec [OF cls this] b
  have up: "\<lparr>subdomain = ''example.com'', addresses = [''93.184.216.34'']\<rparr> \<in> set (alive r)"
    by simp
  from d sub have "''api.example.com'' \<in> set (subdomains r)"
    by simp
  from bspec [OF cls this] a
  have down: "''api.example.com'' \<notin> subdomain ` set (alive r)"
    by simp
  from r up down have "\<exists>r. enumerateSubdomains example_env ''example.com'' = Some r
         \<and> \<lparr>subdomain = ''example.com'', addresses = [''93.184.216.34'']\<rparr> \<in> set (alive r)
         \<and> ''api.example.com'' \<notin> subdomain ` set (alive r)"
    by (intro exI [of _ r] conjI)
  with h a b chk show ?thesis
    by (intro conjI)
qed

text \<open>
  Claim C3. The report of a run holds the candidate sequence of the run, and its alive
  list is that sequence filtered to the candidates that resolve, in the order of the
  sequence, hence sorted; and the order in which the promises of a batch complete does
  not show in the report: every completion order in which all promises settle gives
  the same report.
\<close>

theorem alive_in_candidate_order:
  assumes "all_settle (settle env) 20 (candidates env D)"
  shows "\<exists>r. enumerateSubdomains env D = Some r
           \<and> subdomains r = candidates env D
           \<and> alive r = alive_in_order (resolve4 env) (candidates env D)
           \<and> map subdomain (alive r) = filter (\<lambda>c. \<not> isl (resolve4 env c)) (candidates env D)
           \<and> sorted (map subdomain (alive r))
           \<and> (\<forall>order'. all_settle order' 20 (candidates env D) \<longrightarrow>
                  enumerateSubdomains (env\<lparr>settle := order'\<rparr>) D = Some r)"
proof -
  let ?r = "the (enumerateSubdomains env D)"
  note eq = enumerateSubdomains_eq [OF assms]
  have cand: "candidates (env\<lparr>settle := order'\<rparr>) D = candidates env D" for order'
    by (simp add: candidates_def)
  have "enumerateSubdomains (env\<lparr>settle := order'\<rparr>) D = Some ?r"
    if "all_settle order' 20 (candidates env D)" for order'
  proof -
    from that have "all_settle (settle (env\<lparr>settle := order'\<rparr>)) 20 (candidates (env\<lparr>settle := order'\<rparr>) D)"
      by (simp add: cand)
    from enumerateSubdomains_eq [OF this] show ?thesis
      by (simp add: eq cand)
  qed
  moreover have "sorted (map subdomain (alive_in_order (resolve4 env) (candidates env D)))"
    by (rule sorted_alive_in_order) (simp add: candidates_def sorted_combine)
  ultimately show ?thesis
    by (simp add: eq subdomain_alive_in_order)
qed

text \<open>
  An instance: a run with four alive candidates in four different batches, with
  completion in reverse and in forward order.
\<close>

theorem alive_in_candidate_order_witness:
  "all_settle (settle busy_env) 20 (candidates busy_env ''example.com'')
   \<and> all_settle (\<lambda>i. [0..<20]) 20 (candidates busy_env ''example.com'')
   \<and> (\<exists>r. enumerateSubdomains busy_env ''example.com'' = Some r
           \<and> subdomains r = candidates busy_env ''example.com''
           \<and> alive r = [\<lparr>subdomain = ''api.example.com'', addresses = [''203.0.113.5'']\<rparr>,
                        \<lparr>subdomain = ''example.com'', addresses = [''93.184.216.34'']\<rparr>,
                        \<lparr>subdomain = ''mail.example.com'', addresses = [''198.51.100.7'', ''198.51.100.8'']\<rparr>,
                        \<lparr>subdomain = ''www.example.com'', addresses = [''93.184.216.34'']\<rparr>]
           \<and> sorted (map subdomain (alive r))
           \<and> enumerateSubdomains (busy_env\<lparr>settle := \<lambda>i. [0..<20]\<rparr>) ''example.com'' = Some r)"
proof -
  have h: "all_settle (settle busy_env) 20 (candidates busy_env ''example.com'')"
    by (simp add: busy_env_def example_env_def all_settle_rev)
  have h': "all_settle (\<lambda>i. [0..<20]) 20 (candidates busy_env ''example.com'')"
    by (auto simp: all_settle_def slice_def)
  have v: "alive_in_order (resolve4 busy_env) (candidates busy_env ''example.com'')
             = [\<lparr>subdomain = ''api.example.com'', addresses = [''203.0.113.5'']\<rparr>,
                \<lparr>subdomain = ''example.com'', addresses = [''93.184.216.34'']\<rparr>,
                \<lparr>subdomain = ''mail.example.com'', addresses = [''198.51.100.7'', ''198.51.100.8'']\<rparr>,
                \<lparr>subdomain = ''www.example.com'', addresses = [''93.184.216.34'']\<rparr>]"
    by code_simp
  from alive_in_candidate_order [OF h] obtain r
    where r: "enumerateSubdomains busy_env ''example.com'' = Some r"
      and s: "subdomains r = candidates busy_env ''example.com''"
      and a: "alive r = alive_in_order (resolve4 busy_env) (candidates busy_env ''example.com'')"
      and o: "sorted (map subdomain (alive r))"
      and i: "\<forall>order'. all_settle order' 20 (candidates busy_env ''example.com'') \<longrightarrow>
                  enumerateSubdomains (busy_env\<lparr>settle := order'\<rparr>) ''example.com'' = Some r"
    by blast
  from i h' have "enumerateSubdomains (busy_env\<lparr>settle := \<lambda>i. [0..<20]\<rparr>) ''example.com'' = Some r"
    by blast
  with r s a v o have "\<exists>r. enumerateSubdomains busy_env ''example.com'' = Some r
           \<and> subdomains r = candidates busy_env ''example.com''
           \<and> alive r = [\<lparr>subdomain = ''api.example.com'', addresses = [''203.0.113.5'']\<rparr>,
                        \<lparr>subdomain = ''example.com'', addresses = [''93.184.216.34'']\<rparr>,
                        \<lparr>subdomain = ''mail.example.com'', addresses = [''198.51.100.7'', ''198.51.100.8'']\<rparr>,
                        \<lparr>subdomain = ''www.example.com'', addresses = [''93.184.216.34'']\<rparr>]
           \<and> sorted (map subdomain (alive r))
           \<and> enumerateSubdomains (busy_env\<lparr>settle := \<lambda>i. [0..<20]\<rparr>) ''example.com'' = Some r"
    by (intro exI [of _ r]) simp
  with h h' show ?thesis by (intro conjI)
qed

text \<open>
  Claim C4. For every batch size of at least 1 the loop over the batches returns the
  same alive list, the alive candidates in the order of the candidate sequence. (The
  source fixes the batch size at 20; with a batch size of 0 the loop does not return,
  see \<open>resolve_batches_zero\<close>.)
\<close>

theorem batch_size_invariance:
  assumes "1 \<le> B" and "1 \<le> B'"
    and "all_settle order B cands" and "all_settle order' B' cands"
  shows "resolve_batches order dns B cands 0 [] = Some (alive_in_order dns cands)
         \<and> resolve_batches order' dns B' cands 0 [] = resolve_batches order dns B cands 0 []"
proof -
  from assms(1,3) have "resolve_batches order dns B cands 0 [] = Some ([] @ alive_in_order dns (drop 0 cands))"
    by (intro resolve_batches_eq) simp_all
  moreover from assms(2,4) have "resolve_batches order' dns B' cands 0 [] = Some ([] @ alive_in_order dns (drop 0 cands))"
    by (intro resolve_batches_eq) simp_all
  ultimately show ?thesis by simp
qed

text \<open>An instance: batch sizes 1, 5 and 20 on seven candidates.\<close>

theorem batch_size_invariance_witness:
  "(1::nat) \<le> 1 \<and> (1::nat) \<le> 5 \<and> (1::nat) \<le> 20
   \<and> all_settle (\<lambda>i. rev [0..<20]) 1 example_candidates
   \<and> all_settle (\<lambda>i. [0..<20]) 5 example_candidates
   \<and> all_settle (\<lambda>i. rev [0..<20]) 20 example_candidates
   \<and> resolve_batches (\<lambda>i. rev [0..<20]) mixed_resolver 1 example_candidates 0 []
       = Some [\<lparr>subdomain = ''b.example.com'', addresses = [''10.0.0.1'', ''10.0.0.2'']\<rparr>,
               \<lparr>subdomain = ''example.com'', addresses = [''93.184.216.34'']\<rparr>,
               \<lparr>subdomain = ''www.example.com'', addresses = [''93.184.216.34'']\<rparr>]
   \<and> resolve_batches (\<lambda>i. [0..<20]) mixed_resolver 5 example_candidates 0 []
       = resolve_batches (\<lambda>i. rev [0..<20]) mixed_resolver 1 example_candidates 0 []
   \<and> resolve_batches (\<lambda>i. rev [0..<20]) mixed_resolver 20 example_candidates 0 []
       = resolve_batches (\<lambda>i. rev [0..<20]) mixed_resolver 1 example_candidates 0 []"
proof -
  have b: "(1::nat) \<le> 1" "(1::nat) \<le> 5" "(1::nat) \<le> 20" by simp_all
  have s1: "all_settle (\<lambda>i. rev [0..<20]) 1 example_candidates"
    and s20: "all_settle (\<lambda>i. rev [0..<20]) 20 example_candidates"
    by (simp_all add: all_settle_rev)
  have s5: "all_settle (\<lambda>i. [0..<20]) 5 example_candidates"
    by (auto simp: all_settle_def slice_def)
  have v: "alive_in_order mixed_resolver example_candidates
       = [\<lparr>subdomain = ''b.example.com'', addresses = [''10.0.0.1'', ''10.0.0.2'']\<rparr>,
               \<lparr>subdomain = ''example.com'', addresses = [''93.184.216.34'']\<rparr>,
               \<lparr>subdomain = ''www.example.com'', addresses = [''93.184.216.34'']\<rparr>]"
    by (simp add: example_candidates_def mixed_resolver_def)
  from batch_size_invariance [OF b(1) b(2) s1 s5, of mixed_resolver]
       batch_size_invariance [OF b(1) b(3) s1 s20, of mixed_resolver] b s1 s5 s20 v
  show ?thesis by simp
qed

section \<open>The report: properties\<close>

text \<open>
  Claim C9. In the report of every run that returns, \<^verbatim>\<open>total_found\<close> is the number of
  elements of the candidate set and \<^verbatim>\<open>alive_count\<close> the length of the alive list. The
  assembly adds no way to fail: whenever the loop over the batches returns, the report
  is returned.
\<close>

theorem report_summary:
  "(\<forall>r. enumerateSubdomains env D = Some r \<longrightarrow>
        subdomains r = candidates env D
      \<and> distinct (subdomains r) \<and> sorted (subdomains r)
      \<and> total_found (summary r) = length (subdomains r)
      \<and> total_found (summary r) = card (set (subdomains r))
      \<and> alive_count (summary r) = length (alive r))
   \<and> (\<forall>found. resolve_batches (settle env) (resolve4 env) 20 (candidates env D) 0 [] = Some found \<longrightarrow>
        (\<exists>r. enumerateSubdomains env D = Some r \<and> alive r = found))"
proof -
  have "distinct (candidates env D)" and "sorted (candidates env D)"
    by (simp_all add: candidates_def distinct_combine sorted_combine)
  moreover from this have "card (set (candidates env D)) = length (candidates env D)"
    by (simp add: distinct_card)
  ultimately show ?thesis
    by (auto simp: enumerateSubdomains_def candidates_def Let_def split: option.splits)
qed

text \<open>An instance: the example run has 83 candidates, one of them alive.\<close>

theorem report_summary_witness:
  "\<exists>r. enumerateSubdomains example_env ''example.com'' = Some r
      \<and> total_found (summary r) = length (subdomains r)
      \<and> alive_count (summary r) = length (alive r)
      \<and> total_found (summary r) = 83 \<and> alive_count (summary r) = 1
      \<and> resolve_batches (settle example_env) (resolve4 example_env) 20
           (candidates example_env ''example.com'') 0 [] = Some (alive r)"
proof -
  have "map_option summary (enumerateSubdomains example_env ''example.com'')
          = Some \<lparr>total_found = 83, alive_count = 1\<rparr>"
    by code_simp
  then obtain r where r: "enumerateSubdomains example_env ''example.com'' = Some r"
    and s: "summary r = \<lparr>total_found = 83, alive_count = 1\<rparr>"
    by auto
  from r have b: "resolve_batches (settle example_env) (resolve4 example_env) 20
           (candidates example_env ''example.com'') 0 [] = Some (alive r)"
    by (auto simp: enumerateSubdomains_def candidates_def Let_def split: option.splits)
  from report_summary [of example_env "''example.com''"] r
  have "total_found (summary r) = length (subdomains r) \<and> alive_count (summary r) = length (alive r)"
    by blast
  with r s b show ?thesis by simp
qed

end
